theory Spec2Isabelle
  imports Complex_Main
begin

section \<open>Data model of \<open>dummy_data.py\<close>\<close>

text \<open>
  The module builds a synthetic daily case series: change points are interpolated to a
  daily rate \<open>lambda_t\<close>, an SIR system is integrated with a fixed-step Runge-Kutta
  scheme, the infected compartment is differenced, modulated weekly, delayed and
  optionally replaced by negative-binomial draws.

  Conventions of the embedding.
  \<^item> A date is the proleptic Gregorian ordinal of a midnight \<open>datetime\<close> (Python's
    \<open>toordinal()\<close>), an \<open>int\<close>; \<open>(a - b).days\<close> is then \<open>a - b\<close>.
  \<^item> Python and numpy floats are read as \<open>real\<close>: every statement below is about
    exact arithmetic. Rounding, overflow of \<open>exp\<close>, \<open>inf\<close> and \<open>nan\<close> are not modelled.
  \<^item> A raised exception is the \<open>Inl\<close> branch of a sum.
  \<^item> A random draw is an argument of the function that consumes it.
\<close>

datatype error = IndexError | ValueError | AttributeError | ZeroDivisionError

type_synonym date = int

type_synonym change_point = "date \<times> real"

type_synonym vec3 = "real \<times> real \<times> real"

record initials =
  S_initial :: real
  I_initial :: real
  R_initial :: real
  lambda_initial :: real
  change_points :: "change_point list"
  noise_factor :: real
  offset_sunday :: real
  weekend_factor :: real
  case_delay :: int

record DummyData =
  seed :: int
  add_noise :: bool
  data_begin :: date
  data_end :: date
  mu :: real
  initials :: initials

text \<open>The output frame of \<open>generate\<close>: the date index and its two columns. An index
  entry \<open>None\<close> is pandas' missing date \<open>NaT\<close>.\<close>

record dataframe =
  date_index :: "date option list"
  new_cases :: "real list"
  lambda_t :: "real list"

subsection \<open>Dates\<close>

text \<open>\<open>pd.date_range(a, b)\<close>: every day from \<open>a\<close> to \<open>b\<close>, both ends included; empty
  when \<open>b\<close> is before \<open>a\<close>.\<close>

definition date_range :: "date \<Rightarrow> date \<Rightarrow> date list" where
  "date_range a b = map (\<lambda>k. a + int k) [0..<nat (b - a + 1)]"

definition dates :: "DummyData \<Rightarrow> date list" where
  "dates self = date_range (data_begin self) (data_end self)"

definition data_len :: "DummyData \<Rightarrow> int" where
  "data_len self = data_end self - data_begin self"

text \<open>\<open>datetime.weekday()\<close>: 0 is Monday, 6 is Sunday; ordinal 1 is a Monday.\<close>

definition weekday :: "date \<Rightarrow> int" where
  "weekday d = (d + 6) mod 7"

subsection \<open>Rate curve: \<open>_change_points_to_lambda_t\<close>\<close>

definition logistics_from_cps :: "real \<Rightarrow> real \<Rightarrow> real \<Rightarrow> real \<Rightarrow> real \<Rightarrow> real" where
  "logistics_from_cps x cp1_x cp1_y cp2_x cp2_y =
     (let L = cp2_y - cp1_y;
          C = cp1_y;
          x_0 = \<bar>cp1_x - cp2_x\<bar> / 2 + cp1_x
      in L / (1 + exp (- 0.8 * (x - x_0))) + C)"

definition helper_lambda_between :: "change_point \<Rightarrow> change_point \<Rightarrow> real list" where
  "helper_lambda_between cp1 cp2 =
     (let delta_days = nat \<bar>fst cp1 - fst cp2\<bar>
      in map (\<lambda>x. logistics_from_cps (real x) 0 (snd cp1) (real delta_days) (snd cp2))
             [0..<delta_days])"

text \<open>The \<open>for i, value in enumerate(change_points)\<close> loop: one interpolated segment
  per consecutive pair, nothing for the last change point (\<open>continue\<close>).\<close>

fun between_all :: "change_point list \<Rightarrow> real list" where
  "between_all [] = []"
| "between_all [cp] = []"
| "between_all (cp1 # cp2 # cps) = helper_lambda_between cp1 cp2 @ between_all (cp2 # cps)"

text \<open>
  \<open>change_points.sort(key=lambda x: x[0])\<close> is a stable sort on the date, as
  \<^const>\<open>sort_key\<close> is. \<open>change_points[0]\<close> on the empty array raises \<open>IndexError\<close>.
  \<open>[v] * n\<close> is empty for \<open>n \<le> 0\<close>, as \<^const>\<open>replicate\<close> on \<open>nat n\<close> is.
  The sort is in place on \<open>self.initials["change_points"]\<close>; sorting again changes
  nothing, so the object is not returned updated.
\<close>

definition change_points_to_lambda_t :: "DummyData \<Rightarrow> error + real list" where
  "change_points_to_lambda_t self =
     (let cps = sort_key fst (change_points (initials self))
      in case cps of
           [] \<Rightarrow> Inl IndexError
         | cp0 # _ \<Rightarrow>
             Inr (helper_lambda_between (data_begin self, lambda_initial (initials self)) cp0
                  @ between_all cps
                  @ replicate (nat (data_end self - fst (last cps) + 1)) (snd (last cps))))"

subsection \<open>Integrator: \<open>_generate_SIR\<close>\<close>

definition vadd :: "vec3 \<Rightarrow> vec3 \<Rightarrow> vec3" where
  "vadd u v = (case u of (a, b, c) \<Rightarrow> case v of (a', b', c') \<Rightarrow> (a + a', b + b', c + c'))"

definition vscale :: "real \<Rightarrow> vec3 \<Rightarrow> vec3" where
  "vscale k v = (case v of (a, b, c) \<Rightarrow> (k * a, k * b, k * c))"

definition vdiv :: "vec3 \<Rightarrow> real \<Rightarrow> vec3" where
  "vdiv v k = (case v of (a, b, c) \<Rightarrow> (a / k, b / k, c / k))"

definition vsum :: "vec3 \<Rightarrow> real" where
  "vsum v = (case v of (a, b, c) \<Rightarrow> a + b + c)"

text \<open>The components \<open>y[0]\<close>, \<open>y[1]\<close>, \<open>y[2]\<close> of a state: \<open>S\<close>, \<open>I\<close>, \<open>R\<close>.\<close>

definition y0 :: "vec3 \<Rightarrow> real" where
  "y0 v = fst v"

definition y1 :: "vec3 \<Rightarrow> real" where
  "y1 v = fst (snd v)"

definition y2 :: "vec3 \<Rightarrow> real" where
  "y2 v = snd (snd v)"

text \<open>The right-hand side \<open>f(t, y, lambda_t)\<close>; \<open>N\<close> and \<open>self.mu\<close> are its free
  variables in the source. For \<open>N = 0\<close> numpy yields \<open>inf\<close>/\<open>nan\<close>, which the reals do
  not have: the theorems about the integrator assume \<open>N > 0\<close>.\<close>

definition f :: "real \<Rightarrow> real \<Rightarrow> real \<Rightarrow> vec3 \<Rightarrow> real \<Rightarrow> vec3" where
  "f N m t y lam =
     vadd (vdiv (vscale (y1 y) (vscale (y0 y) (vscale lam (- 1, 1, 0)))) N)
          (0, - m * y1 y, m * y1 y)"

definition RK4 :: "real \<Rightarrow> real \<Rightarrow> real \<Rightarrow> real \<Rightarrow> vec3 \<Rightarrow> real \<Rightarrow> vec3" where
  "RK4 N m dt t_n y_n lam =
     (let k_1 = f N m t_n y_n lam;
          k_2 = f N m (t_n + dt / 2) (vadd y_n (vdiv (vscale dt k_1) 2)) lam;
          k_3 = f N m (t_n + dt / 2) (vadd y_n (vdiv (vscale dt k_2) 2)) lam;
          k_4 = f N m (t_n + dt) (vadd y_n (vscale dt k_3)) lam
      in vadd y_n (vscale (dt / 6)
           (vadd (vadd (vadd k_1 (vscale 2 k_2)) (vscale 2 k_3)) k_4)))"

text \<open>The lists \<open>t_n\<close>, \<open>y_n\<close> after the first \<open>i\<close> iterations of
  \<open>for i in range(time_range)\<close>, with the step \<open>dt = 1\<close> of the source;
  \<open>self.lambda_t[i]\<close> raises when the rate sequence is too short.\<close>

primrec SIR_steps :: "real \<Rightarrow> real \<Rightarrow> real list \<Rightarrow> vec3 \<Rightarrow> nat \<Rightarrow> error + (real list \<times> vec3 list)" where
  "SIR_steps N m lams y_init 0 = Inr ([0], [y_init])"
| "SIR_steps N m lams y_init (Suc i) =
     (case SIR_steps N m lams y_init i of
        Inl e \<Rightarrow> Inl e
      | Inr (t_n, y_n) \<Rightarrow>
          if i < length lams
          then Inr (t_n @ [t_n ! i + 1], y_n @ [RK4 N m 1 (t_n ! i) (y_n ! i) (lams ! i)])
          else Inl IndexError)"

definition generate_SIR :: "DummyData \<Rightarrow> real list \<Rightarrow> error + (real list \<times> vec3 list)" where
  "generate_SIR self lams =
     (let time_range = data_len self;
          N = S_initial (initials self) + I_initial (initials self) + R_initial (initials self)
      in SIR_steps N (mu self) lams
           (S_initial (initials self), I_initial (initials self), R_initial (initials self))
           (nat time_range))"

subsection \<open>Observable: \<open>_calc_new_cases_raw\<close>\<close>

text \<open>The list \<open>y\<close> after the first \<open>i\<close> iterations of \<open>for i in range(len(I))\<close>.\<close>

primrec new_cases_raw_steps :: "real list \<Rightarrow> nat \<Rightarrow> real list" where
  "new_cases_raw_steps I 0 = []"
| "new_cases_raw_steps I (Suc i) =
     (let y = new_cases_raw_steps I i
      in if i = 0 then y @ [0]
         else let v = I ! i - I ! (i - 1)
              in if v > 0 then y @ [v] else y @ [0])"

definition calc_new_cases_raw :: "real list \<Rightarrow> real list" where
  "calc_new_cases_raw I = new_cases_raw_steps I (length I)"

subsection \<open>Weekly modulation: \<open>_week_modulation\<close>\<close>

text \<open>The inner \<open>f(t)\<close> of \<open>_week_modulation\<close>.\<close>

definition week_f :: "DummyData \<Rightarrow> real \<Rightarrow> real" where
  "week_f self t =
     (let s = sin (pi / 7 * t - 1 / 2 * offset_sunday (initials self))
      in weekend_factor (initials self) * (1 - \<bar>s\<bar>))"

text \<open>The list \<open>new_cases\<close> after the first \<open>i\<close> iterations of
  \<open>for i in range(len(t_n))\<close>; \<open>new_cases_raw[i]\<close> raises when the raw series is
  shorter than \<open>t_n\<close>.\<close>

primrec week_modulation_steps :: "DummyData \<Rightarrow> real list \<Rightarrow> real list \<Rightarrow> nat \<Rightarrow> error + real list" where
  "week_modulation_steps self t_n raw 0 = Inr []"
| "week_modulation_steps self t_n raw (Suc i) =
     (case week_modulation_steps self t_n raw i of
        Inl e \<Rightarrow> Inl e
      | Inr nc \<Rightarrow>
          if i < length raw
          then Inr (nc @ [raw ! i * (1 - week_f self (t_n ! i))])
          else Inl IndexError)"

definition week_modulation :: "DummyData \<Rightarrow> real list \<Rightarrow> real list \<Rightarrow> error + real list" where
  "week_modulation self t_n raw = week_modulation_steps self t_n raw (length t_n)"

subsection \<open>Delay: \<open>_delay_cases\<close>\<close>

text \<open>\<open>Series.shift(periods, fill_value)\<close> of pandas: the values move \<open>periods\<close> places
  towards the end (towards the start when \<open>periods\<close> is negative), the vacated places
  take \<open>fill_value\<close>, the length stays.\<close>

definition shift :: "int \<Rightarrow> real \<Rightarrow> real list \<Rightarrow> real list" where
  "shift periods fill_value xs =
     (let n = length xs
      in if 0 \<le> periods
         then replicate (min (nat periods) n) fill_value @ take (n - nat periods) xs
         else drop (nat (- periods)) xs @ replicate (min (nat (- periods)) n) fill_value)"

definition delay_cases :: "DummyData \<Rightarrow> real list \<Rightarrow> real list" where
  "delay_cases self col = shift (case_delay (initials self)) 0 col"

subsection \<open>Noise: \<open>_random_noise\<close>\<close>

text \<open>scipy's negative-binomial sampler: \<open>RandomState s\<close> is the stream seeded with
  \<open>s\<close>, \<open>rvs r p st\<close> is the draw \<open>nbinom.rvs(r, p)\<close> in stream state \<open>st\<close> together
  with the state after it. Both are arguments: nothing is assumed about the draws.\<close>

record 's nbinom =
  RandomState :: "int \<Rightarrow> 's"
  rvs :: "real \<Rightarrow> real \<Rightarrow> 's \<Rightarrow> real \<times> 's"

text \<open>\<open>1 / alpha\<close> on a Python float raises for \<open>alpha = 0\<close>.\<close>

definition convert :: "real \<Rightarrow> real \<Rightarrow> error + (real \<times> real)" where
  "convert m alpha =
     (if alpha = 0 then Inl ZeroDivisionError
      else let r = 1 / alpha; p = m / (m + r) in Inr (r, 1 - p))"

text \<open>\<open>rvs\<close> of scipy checks its arguments first: \<open>nbinom.rvs(n, p)\<close> raises
  \<open>ValueError\<close> unless \<open>n > 0\<close> and \<open>0 \<le> p \<le> 1\<close>.\<close>

definition nbinom_argcheck :: "real \<Rightarrow> real \<Rightarrow> bool" where
  "nbinom_argcheck n p = (0 < n \<and> 0 \<le> p \<and> p \<le> 1)"

text \<open>The array and the stream after the first \<open>i\<close> iterations of
  \<open>for i in range(len(array))\<close>. The entries are numpy floats: for \<open>mu + r = 0\<close> the
  division in \<open>convert\<close> gives \<open>inf\<close> or \<open>nan\<close>, which fails the argument check of
  \<open>rvs\<close> as well.\<close>

primrec random_noise_steps :: "'s nbinom \<Rightarrow> real \<Rightarrow> real list \<Rightarrow> 's \<Rightarrow> nat \<Rightarrow> error + (real list \<times> 's)" where
  "random_noise_steps nb alpha array0 st0 0 = Inr (array0, st0)"
| "random_noise_steps nb alpha array0 st0 (Suc i) =
     (case random_noise_steps nb alpha array0 st0 i of
        Inl e \<Rightarrow> Inl e
      | Inr (array, st) \<Rightarrow>
          if array ! i = 0 then Inr (array, st)
          else (case convert (array ! i) alpha of
                  Inl e \<Rightarrow> Inl e
                | Inr (r, p) \<Rightarrow>
                    if array ! i + r = 0 \<or> \<not> nbinom_argcheck r p then Inl ValueError
                    else (case rvs nb r p st of (v, st') \<Rightarrow> Inr (array[i := v], st'))))"

definition random_noise :: "'s nbinom \<Rightarrow> DummyData \<Rightarrow> real list \<Rightarrow> error + real list" where
  "random_noise nb self df =
     (case random_noise_steps nb (noise_factor (initials self)) df
             (RandomState nb (seed self)) (length df) of
        Inl e \<Rightarrow> Inl e
      | Inr (array, st) \<Rightarrow> Inr array)"

subsection \<open>The pipeline: \<open>generate\<close>\<close>

text \<open>
  Column assignment of pandas. \<open>df["date"]\<close> gives the new frame one row per date.
  \<open>df["new_cases"] = new_cases\<close> on a frame that has rows raises \<open>ValueError\<close> when
  the lengths differ; a frame without rows (an empty date range) instead takes one row
  per entry of the assigned list and fills its \<open>date\<close> column with \<open>NaT\<close>.
  \<open>frame_index\<close> is the index of the frame after \<open>set_index("date")\<close>.
\<close>

definition frame_index :: "date list \<Rightarrow> real list \<Rightarrow> error + date option list" where
  "frame_index ds col =
     (if ds = [] \<and> col \<noteq> [] then Inr (replicate (length col) None)
      else if length col \<noteq> length ds then Inl ValueError
      else Inr (map Some ds))"

text \<open>Assigning the numpy array \<open>self.lambda_t\<close> as a column raises \<open>ValueError\<close> when
  its length differs from the number of rows. The attribute \<open>self.lambda_t\<close> set by
  \<open>generate\<close> is the sequence returned in the \<open>lambda_t\<close> column.\<close>

definition generate :: "'s nbinom \<Rightarrow> DummyData \<Rightarrow> error + dataframe" where
  "generate nb self =
     (case change_points_to_lambda_t self of
        Inl e \<Rightarrow> Inl e
      | Inr lams \<Rightarrow>
     (case generate_SIR self lams of
        Inl e \<Rightarrow> Inl e
      | Inr (t_n, data) \<Rightarrow>
     (let raw = calc_new_cases_raw (map y1 data)
      in case week_modulation self t_n raw of
        Inl e \<Rightarrow> Inl e
      | Inr nc \<Rightarrow>
     (case frame_index (date_range (data_begin self) (data_end self)) nc of
        Inl e \<Rightarrow> Inl e
      | Inr idx \<Rightarrow>
          let delayed = delay_cases self nc
          in if length lams \<noteq> length idx then Inl ValueError
             else if add_noise self
                  then (case random_noise nb self delayed of
                          Inl e \<Rightarrow> Inl e
                        | Inr noisy \<Rightarrow>
                            Inr \<lparr>date_index = idx, new_cases = noisy, lambda_t = lams\<rparr>)
                  else Inr \<lparr>date_index = idx, new_cases = delayed, lambda_t = lams\<rparr>))))"

subsection \<open>Construction: \<open>_update_initial\<close> and \<open>__init__\<close>\<close>

text \<open>The keyword arguments \<open>**initial_values\<close>: \<open>None\<close> is an absent key.\<close>

record initial_values =
  kw_S_initial :: "real option"
  kw_I_initial :: "real option"
  kw_R_initial :: "real option"
  kw_lambda_initial :: "real option"
  kw_change_points :: "change_point list option"
  kw_noise_factor :: "real option"
  kw_offset_sunday :: "real option"
  kw_weekend_factor :: "real option"
  kw_case_delay :: "int option"

text \<open>The outcomes of the draws of \<open>_update_initial\<close>: \<open>np.random.randint\<close>,
  \<open>halfcauchy.rvs\<close>, \<open>np.random.uniform\<close>, and for the \<open>k\<close>-th Sunday of the window
  \<open>np.random.normal(0, 3)\<close> and \<open>np.random.uniform(0, 1)\<close>.\<close>

record draws =
  randint_S :: int
  halfcauchy_I :: real
  uniform_lambda :: real
  normal_cp :: "nat \<Rightarrow> real"
  uniform_cp :: "nat \<Rightarrow> real"
  uniform_weekend :: real

text \<open>Python's \<open>int(x)\<close> on a float truncates towards zero.\<close>

definition py_int :: "real \<Rightarrow> int" where
  "py_int x = (if 0 \<le> x then \<lfloor>x\<rfloor> else \<lceil>x\<rceil>)"

fun generate_change_points_we :: "draws \<Rightarrow> date list \<Rightarrow> nat \<Rightarrow> change_point list" where
  "generate_change_points_we dr [] k = []"
| "generate_change_points_we dr (d # ds) k =
     (if weekday d = 6
      then (d + py_int (normal_cp dr k), uniform_cp dr k) # generate_change_points_we dr ds (Suc k)
      else generate_change_points_we dr ds k)"

function first_sunday :: "date \<Rightarrow> nat \<Rightarrow> nat" where
  "first_sunday d offset =
     (if weekday d \<noteq> 6 then first_sunday (d + 1) (offset + 1) else offset)"
  by pat_completeness auto
termination
  by (relation "measure (\<lambda>(d, offset). nat (6 - weekday d))")
     (auto simp: weekday_def, presburger)

definition update_initial :: "date \<Rightarrow> date \<Rightarrow> initial_values \<Rightarrow> draws \<Rightarrow> initials" where
  "update_initial b e kw dr =
     \<lparr>S_initial = (case kw_S_initial kw of Some v \<Rightarrow> v | None \<Rightarrow> real_of_int (randint_S dr)),
      I_initial = (case kw_I_initial kw of Some v \<Rightarrow> v
                   | None \<Rightarrow> real_of_int (py_int (halfcauchy_I dr))),
      R_initial = (case kw_R_initial kw of Some v \<Rightarrow> v | None \<Rightarrow> 0),
      lambda_initial = (case kw_lambda_initial kw of Some v \<Rightarrow> v | None \<Rightarrow> uniform_lambda dr),
      change_points = (case kw_change_points kw of Some v \<Rightarrow> v
                       | None \<Rightarrow> generate_change_points_we dr (date_range b e) 0),
      noise_factor = (case kw_noise_factor kw of Some v \<Rightarrow> v | None \<Rightarrow> 0.00001),
      offset_sunday = (case kw_offset_sunday kw of Some v \<Rightarrow> v
                       | None \<Rightarrow> real (first_sunday b 0)),
      weekend_factor = (case kw_weekend_factor kw of Some v \<Rightarrow> v | None \<Rightarrow> uniform_weekend dr),
      case_delay = (case kw_case_delay kw of Some v \<Rightarrow> v | None \<Rightarrow> 6)\<rparr>"

text \<open>
  Line 67 reads \<open>np.randint(1000000,9999999)\<close>. The numpy module has no attribute
  \<open>randint\<close> (the function is \<open>np.random.randint\<close>, as line 133 spells it), so the
  attribute lookup raises \<open>AttributeError\<close> before anything is called.
\<close>

definition np_randint :: "int \<Rightarrow> int \<Rightarrow> error + int" where
  "np_randint low high = Inl AttributeError"

text \<open>\<open>np.random.seed\<close> accepts an integer seed between 0 and \<open>2**32 - 1\<close> only.\<close>

definition np_random_seed :: "int \<Rightarrow> error + unit" where
  "np_random_seed s = (if 0 \<le> s \<and> s < 2 ^ 32 then Inr () else Inl ValueError)"

definition init :: "'s nbinom \<Rightarrow> draws \<Rightarrow> date \<Rightarrow> date \<Rightarrow> real \<Rightarrow> bool \<Rightarrow> bool \<Rightarrow> int option \<Rightarrow> initial_values \<Rightarrow> error + DummyData" where
  "init nb dr begin_date end_date m noise auto_generate seed_arg kw =
     (case (case seed_arg of Some s \<Rightarrow> Inr s | None \<Rightarrow> np_randint 1000000 9999999) of
        Inl e \<Rightarrow> Inl e
      | Inr s \<Rightarrow>
     (case np_random_seed s of
        Inl e \<Rightarrow> Inl e
      | Inr _ \<Rightarrow>
          let self = \<lparr>seed = s, add_noise = noise, data_begin = begin_date,
                      data_end = end_date, mu = m,
                      initials = update_initial begin_date end_date kw dr\<rparr>
          in if auto_generate
             then (case generate nb self of Inl e \<Rightarrow> Inl e | Inr _ \<Rightarrow> Inr self)
             else Inr self))"

subsection \<open>Example objects\<close>

text \<open>The window 2020-03-10 to 2020-03-12, one change point on the first day.\<close>

definition example_data :: DummyData where
  "example_data =
     \<lparr>seed = 1, add_noise = False, data_begin = 737494, data_end = 737496, mu = 1 / 10,
      initials = \<lparr>S_initial = 1000000, I_initial = 10, R_initial = 0, lambda_initial = 3 / 10,
                  change_points = [(737494, 3 / 10)], noise_factor = 1 / 100000,
                  offset_sunday = 5, weekend_factor = 3 / 10, case_delay = 1\<rparr>\<rparr>"

text \<open>A one-day window with recovery rate 3.\<close>

definition stiff_data :: DummyData where
  "stiff_data =
     \<lparr>seed = 1, add_noise = False, data_begin = 737494, data_end = 737495, mu = 3,
      initials = \<lparr>S_initial = 1000000, I_initial = 10, R_initial = 0, lambda_initial = 0,
                  change_points = [(737494, 0)], noise_factor = 1 / 100000,
                  offset_sunday = 5, weekend_factor = 3 / 10, case_delay = 6\<rparr>\<rparr>"

text \<open>An eleven-day window, 2020-03-10 to 2020-03-20, whose only change point lies two
  days before the window starts.\<close>

definition early_cp_data :: DummyData where
  "early_cp_data =
     \<lparr>seed = 1, add_noise = False, data_begin = 737494, data_end = 737504, mu = 1 / 10,
      initials = \<lparr>S_initial = 1000000, I_initial = 10, R_initial = 0, lambda_initial = 3 / 10,
                  change_points = [(737492, 1 / 2)], noise_factor = 1 / 100000,
                  offset_sunday = 5, weekend_factor = 3 / 10, case_delay = 6\<rparr>\<rparr>"

text \<open>A sampler whose every draw is 7.\<close>

definition example_nbinom :: "nat nbinom" where
  "example_nbinom = \<lparr>RandomState = (\<lambda>s. 0), rvs = (\<lambda>r p st. (7, Suc st))\<rparr>"

text \<open>A two-day window with noise switched on, no weekly suppression and no delay.\<close>

definition noisy_data :: DummyData where
  "noisy_data =
     \<lparr>seed = 1, add_noise = True, data_begin = 737494, data_end = 737495, mu = 1 / 2,
      initials = \<lparr>S_initial = 3, I_initial = 1, R_initial = 0, lambda_initial = 1,
                  change_points = [(737494, 1)], noise_factor = 1 / 100000,
                  offset_sunday = 5, weekend_factor = 0, case_delay = 0\<rparr>\<rparr>"

text \<open>A sampler whose every draw is 0.\<close>

definition zero_nbinom :: "nat nbinom" where
  "zero_nbinom = \<lparr>RandomState = (\<lambda>s. 0), rvs = (\<lambda>r p st. (0, Suc st))\<rparr>"

text \<open>The reversed window 2020-03-20 to 2020-03-10 with one change point on 2020-03-21.\<close>

definition reversed_data :: DummyData where
  "reversed_data =
     \<lparr>seed = 1, add_noise = False, data_begin = 737504, data_end = 737494, mu = 1 / 10,
      initials = \<lparr>S_initial = 1000000, I_initial = 10, R_initial = 0, lambda_initial = 3 / 10,
                  change_points = [(737505, 3 / 10)], noise_factor = 1 / 100000,
                  offset_sunday = 2, weekend_factor = 3 / 10, case_delay = 6\<rparr>\<rparr>"

text \<open>One outcome of the draws of the default initialisation, and a call that passes no
  keyword arguments.\<close>

definition example_draws :: draws where
  "example_draws =
     \<lparr>randint_S = 7500000, halfcauchy_I = 7 / 2, uniform_lambda = 3 / 10,
      normal_cp = (\<lambda>k. 3 / 2), uniform_cp = (\<lambda>k. 1 / 5), uniform_weekend = 3 / 10\<rparr>"

definition no_overrides :: initial_values where
  "no_overrides =
     \<lparr>kw_S_initial = None, kw_I_initial = None, kw_R_initial = None,
      kw_lambda_initial = None, kw_change_points = None, kw_noise_factor = None,
      kw_offset_sunday = None, kw_weekend_factor = None, kw_case_delay = None\<rparr>"

text \<open>Draws of the default initialisation in which the seventh Sunday of the window is
  moved two days later, and the object that the docstring's call
  \<open>DummyData(datetime(2020,3,10), datetime(2020,4,26))\<close> builds from them with seed 1.\<close>

definition late_draws :: draws where
  "late_draws =
     \<lparr>randint_S = 7500000, halfcauchy_I = 7 / 2, uniform_lambda = 3 / 10,
      normal_cp = (\<lambda>k. if k = 6 then 5 / 2 else 0), uniform_cp = (\<lambda>k. 1 / 5),
      uniform_weekend = 3 / 10\<rparr>"

definition docstring_data :: DummyData where
  "docstring_data =
     \<lparr>seed = 1, add_noise = False, data_begin = 737494, data_end = 737541, mu = 13 / 100,
      initials = update_initial 737494 737541 no_overrides late_draws\<rparr>"

text \<open>The window 2020-03-10 to 2020-03-20 with two change points inside it, given out of
  order.\<close>

definition two_cp_data :: DummyData where
  "two_cp_data =
     \<lparr>seed = 1, add_noise = False, data_begin = 737494, data_end = 737504, mu = 1 / 10,
      initials = \<lparr>S_initial = 1000000, I_initial = 10, R_initial = 0, lambda_initial = 3 / 10,
                  change_points = [(737501, 1 / 5), (737497, 1 / 2)], noise_factor = 1 / 100000,
                  offset_sunday = 5, weekend_factor = 3 / 10, case_delay = 6\<rparr>\<rparr>"

section \<open>Properties\<close>

subsection \<open>The observable extractor\<close>

lemma new_cases_raw_steps_length: "length (new_cases_raw_steps I n) = n"
  by (induction n) (simp_all add: Let_def)

lemma new_cases_raw_steps_nth:
  "i < n \<Longrightarrow> new_cases_raw_steps I n ! i = (if i = 0 then 0 else max 0 (I ! i - I ! (i - 1)))"
proof (induction n)
  case 0
  then show ?case by simp
next
  case (Suc n)
  show ?case
  proof (cases "i = n")
    case True
    then show ?thesis
      by (simp add: Let_def nth_append new_cases_raw_steps_length max_def)
  next
    case False
    with Suc.prems have "i < n" by simp
    with Suc.IH show ?thesis
      by (auto simp: Let_def nth_append new_cases_raw_steps_length)
  qed
qed

lemma calc_new_cases_raw_length: "length (calc_new_cases_raw I) = length I"
  by (simp add: calc_new_cases_raw_def new_cases_raw_steps_length)

lemma calc_new_cases_raw_nth:
  "i < length I \<Longrightarrow>
   calc_new_cases_raw I ! i = (if i = 0 then 0 else max 0 (I ! i - I ! (i - 1)))"
  by (simp add: calc_new_cases_raw_def new_cases_raw_steps_nth)

text \<open>
  Claim C5. For every infected-compartment sequence \<open>I\<close>, \<open>_calc_new_cases_raw\<close> returns
  a sequence of the same length whose first element is 0 and whose element at each
  \<open>i > 0\<close> is \<open>max(0, I[i] - I[i-1])\<close>; every element of the output is non-negative.
\<close>

theorem calc_new_cases_raw_contract:
  "length (calc_new_cases_raw I) = length I
   \<and> (I \<noteq> [] \<longrightarrow> calc_new_cases_raw I ! 0 = 0)
   \<and> (\<forall>i. 0 < i \<and> i < length I \<longrightarrow> calc_new_cases_raw I ! i = max 0 (I ! i - I ! (i - 1)))
   \<and> (\<forall>x \<in> set (calc_new_cases_raw I). 0 \<le> x)"
proof -
  have nonneg: "0 \<le> x" if "x \<in> set (calc_new_cases_raw I)" for x
  proof -
    from that obtain i where "i < length I" "x = calc_new_cases_raw I ! i"
      by (auto simp: in_set_conv_nth calc_new_cases_raw_length)
    then show ?thesis by (simp add: calc_new_cases_raw_nth)
  qed
  show ?thesis
    using calc_new_cases_raw_length [of I] calc_new_cases_raw_nth [of _ I] nonneg by simp
qed

theorem calc_new_cases_raw_contract_witness:
  "calc_new_cases_raw [5, 8, 6] = [0, 3, 0]"
proof -
  let ?I = "[5, 8, 6 :: real]"
  have l: "length (calc_new_cases_raw ?I) = 3"
    and a: "calc_new_cases_raw ?I ! 0 = 0"
    and b: "calc_new_cases_raw ?I ! 1 = 3"
    and c: "calc_new_cases_raw ?I ! 2 = 0"
    using calc_new_cases_raw_contract [of ?I] by (simp_all add: numeral_2_eq_2)
  show ?thesis
    by (rule nth_equalityI) (use l a b c in \<open>auto simp: less_Suc_eq numeral_3_eq_3 numeral_2_eq_2\<close>)
qed

subsection \<open>The integrator\<close>

lemma vsum_f: "vsum (f N m t y lam) = 0"
  by (cases y) (simp add: f_def vsum_def vadd_def vdiv_def vscale_def y0_def y1_def add_divide_distrib[symmetric])

lemma vsum_vadd: "vsum (vadd u v) = vsum u + vsum v"
  by (cases u; cases v) (simp add: vsum_def vadd_def)

lemma vsum_vscale: "vsum (vscale k v) = k * vsum v"
  by (cases v) (simp add: vsum_def vscale_def algebra_simps)

lemma vsum_RK4: "vsum (RK4 N m dt t y lam) = vsum y"
  by (simp add: RK4_def Let_def vsum_vadd vsum_vscale vsum_f)

lemma SIR_steps_length:
  "SIR_steps N m lams y_init n = Inr (t_n, y_n) \<Longrightarrow> length t_n = Suc n \<and> length y_n = Suc n"
  by (induction n arbitrary: t_n y_n) (auto split: sum.splits if_splits)

lemma SIR_steps_returns:
  "n \<le> length lams \<Longrightarrow> \<exists>t_n y_n. SIR_steps N m lams y_init n = Inr (t_n, y_n)"
  by (induction n) auto

lemma SIR_steps_vsum:
  "SIR_steps N m lams y_init n = Inr (t_n, y_n) \<Longrightarrow> y \<in> set y_n \<Longrightarrow> vsum y = vsum y_init"
proof (induction n arbitrary: t_n y_n y)
  case 0
  then show ?case by auto
next
  case (Suc n)
  from Suc.prems(1) obtain t' y' where
    prev: "SIR_steps N m lams y_init n = Inr (t', y')" and
    y_n: "y_n = y' @ [RK4 N m 1 (t' ! n) (y' ! n) (lams ! n)]"
    by (auto split: sum.splits if_splits)
  from SIR_steps_length [OF prev] have "y' ! n \<in> set y'" by simp
  then have last: "vsum (y' ! n) = vsum y_init" by (rule Suc.IH [OF prev])
  from Suc.prems(2) have "y \<in> set y' \<or> y = RK4 N m 1 (t' ! n) (y' ! n) (lams ! n)"
    by (auto simp: y_n)
  then show ?case
  proof
    assume "y \<in> set y'"
    then show ?thesis by (rule Suc.IH [OF prev])
  next
    assume "y = RK4 N m 1 (t' ! n) (y' ! n) (lams ! n)"
    then show ?thesis by (simp add: vsum_RK4 last)
  qed
qed

text \<open>
  Claim C3. For every initial state with \<open>N = S0 + I0 + R0 > 0\<close>, every rate sequence
  and every recovery rate (in particular positive ones), each RK4 step of \<open>_generate_SIR\<close>
  preserves the sum \<open>S + I + R\<close> in exact arithmetic, so the trajectory that
  \<open>_generate_SIR\<close> returns has \<open>S + I + R = N\<close> at every step. The trajectory is
  returned whenever the rate sequence has at least \<open>data_len\<close> entries.
\<close>

theorem RK4_conserves_population:
  assumes "0 < S_initial (initials self) + I_initial (initials self) + R_initial (initials self)"
    and "data_len self \<le> int (length lams)"
  shows "(\<forall>dt t y lam.
            vsum (RK4 (S_initial (initials self) + I_initial (initials self) + R_initial (initials self))
                      (mu self) dt t y lam) = vsum y)
       \<and> (\<exists>t_n y_n. generate_SIR self lams = Inr (t_n, y_n)
            \<and> length y_n = nat (data_len self) + 1
            \<and> (\<forall>y \<in> set y_n. vsum y =
                  S_initial (initials self) + I_initial (initials self) + R_initial (initials self)))"
proof -
  let ?N = "S_initial (initials self) + I_initial (initials self) + R_initial (initials self)"
  let ?init = "(S_initial (initials self), I_initial (initials self), R_initial (initials self))"
  from assms(2) have "nat (data_len self) \<le> length lams" by simp
  from SIR_steps_returns [OF this] obtain t_n y_n where
    run: "SIR_steps ?N (mu self) lams ?init (nat (data_len self)) = Inr (t_n, y_n)"
    by blast
  have "generate_SIR self lams = Inr (t_n, y_n)"
    using run by (simp add: generate_SIR_def Let_def)
  moreover have "length y_n = nat (data_len self) + 1"
    using SIR_steps_length [OF run] by simp
  moreover have "vsum y = ?N" if "y \<in> set y_n" for y
    using SIR_steps_vsum [OF run that] by (simp add: vsum_def)
  ultimately show ?thesis
    by (simp add: vsum_RK4)
qed

theorem RK4_conserves_population_witness:
  "0 < S_initial (initials example_data) + I_initial (initials example_data)
         + R_initial (initials example_data)
   \<and> data_len example_data \<le> int (length [3 / 10, 3 / 10, 3 / 10 :: real])
   \<and> (\<exists>t_n y_n. generate_SIR example_data [3 / 10, 3 / 10, 3 / 10] = Inr (t_n, y_n)
          \<and> length y_n = 3 \<and> vsum (y_n ! 2) = 1000010)"
proof -
  have h1: "0 < S_initial (initials example_data) + I_initial (initials example_data)
                + R_initial (initials example_data)"
    by (simp add: example_data_def)
  have h2: "data_len example_data \<le> int (length [3 / 10, 3 / 10, 3 / 10 :: real])"
    by (simp add: example_data_def data_len_def)
  from RK4_conserves_population [OF h1 h2] obtain t_n y_n where
    r: "generate_SIR example_data [3 / 10, 3 / 10, 3 / 10] = Inr (t_n, y_n)"
    and l: "length y_n = nat (data_len example_data) + 1"
    and s: "\<forall>y \<in> set y_n. vsum y = S_initial (initials example_data)
              + I_initial (initials example_data) + R_initial (initials example_data)"
    by blast
  from l have l3: "length y_n = 3" by (simp add: example_data_def data_len_def)
  then have "y_n ! 2 \<in> set y_n" by simp
  with s have "vsum (y_n ! 2) = 1000010" by (simp add: example_data_def)
  with r l3 h1 h2 show ?thesis by blast
qed

lemma RK4_zero_rate_S: "y0 (RK4 N m 1 t y 0) = y0 y"
  by (cases y) (simp add: RK4_def f_def Let_def vadd_def vscale_def vdiv_def y0_def y1_def)

lemma RK4_zero_rate_I:
  "y1 (RK4 N m 1 t y 0) = y1 y * (1 - m + m^2 / 2 - m^3 / 6 + m^4 / 24)"
  by (cases y)
     (simp add: RK4_def f_def Let_def vadd_def vscale_def vdiv_def y0_def y1_def
        power2_eq_square power3_eq_cube power4_eq_xxxx field_simps)

lemma decay_factor_pos: "0 < 1 - m + m^2 / 2 - m^3 / 6 + m^4 / 24" for m :: real
proof -
  have "24 * (1 - m + m^2 / 2 - m^3 / 6 + m^4 / 24)
        = (m^2 - 2 * m)^2 + 8 * ((m - 3 / 2)^2 + 3 / 4)"
    by (simp add: power2_eq_square power3_eq_cube power4_eq_xxxx algebra_simps)
  moreover have "0 < (m^2 - 2 * m)^2 + 8 * ((m - 3 / 2)^2 + 3 / 4)"
    by (intro add_nonneg_pos mult_pos_pos zero_le_power2) simp_all
  ultimately have "0 < 24 * (1 - m + m^2 / 2 - m^3 / 6 + m^4 / 24)" by simp
  then show ?thesis by simp
qed

lemma decay_factor_le_one:
  fixes m :: real
  assumes "0 < m" and "m^3 + 12 * m \<le> 4 * m^2 + 24"
  shows "1 - m + m^2 / 2 - m^3 / 6 + m^4 / 24 \<le> 1"
proof -
  have "m * (m^3 + 12 * m) \<le> m * (4 * m^2 + 24)"
    using assms by (intro mult_left_mono) simp_all
  then have "m^4 + 12 * m^2 \<le> 4 * m^3 + 24 * m"
    by (simp add: power2_eq_square power3_eq_cube power4_eq_xxxx algebra_simps)
  then show ?thesis by (simp add: field_simps)
qed

lemma SIR_steps_zero_rate:
  assumes zero: "\<forall>x \<in> set lams. x = 0"
  shows "SIR_steps N m lams y_init n = Inr (t_n, y_n) \<Longrightarrow> k \<le> n \<Longrightarrow>
         y0 (y_n ! k) = y0 y_init
         \<and> y1 (y_n ! k) = y1 y_init * (1 - m + m^2 / 2 - m^3 / 6 + m^4 / 24) ^ k"
proof (induction n arbitrary: t_n y_n k)
  case 0
  then show ?case by auto
next
  case (Suc n)
  from Suc.prems(1) obtain t' y' where
    prev: "SIR_steps N m lams y_init n = Inr (t', y')" and
    inb: "n < length lams" and
    y_n: "y_n = y' @ [RK4 N m 1 (t' ! n) (y' ! n) (lams ! n)]"
    by (auto split: sum.splits if_splits)
  from inb zero have lam0: "lams ! n = 0" by simp
  from SIR_steps_length [OF prev] have len: "length y' = Suc n" by simp
  show ?case
  proof (cases "k \<le> n")
    case True
    then have "y_n ! k = y' ! k" by (simp add: y_n nth_append len)
    with Suc.IH [OF prev True] show ?thesis by simp
  next
    case False
    with Suc.prems(2) have k: "k = Suc n" by simp
    then have "y_n ! k = RK4 N m 1 (t' ! n) (y' ! n) 0"
      by (simp add: y_n nth_append len lam0)
    with Suc.IH [OF prev order_refl] show ?thesis
      by (simp add: RK4_zero_rate_S RK4_zero_rate_I k)
  qed
qed

text \<open>
  Claim C4, amended. For every initial state with \<open>N > 0\<close> and \<open>I0 \<ge> 0\<close> and every
  recovery rate \<open>mu > 0\<close> with \<open>mu^3 + 12 mu \<le> 4 mu^2 + 24\<close> (every \<open>mu\<close> up to about
  2.78), if the rate sequence is identically zero then in the trajectory of
  \<open>_generate_SIR\<close> the \<open>S\<close> component is constant and the \<open>I\<close> component is
  non-increasing. One RK4 step with zero rate multiplies \<open>I\<close> by
  \<open>1 - mu + mu^2/2 - mu^3/6 + mu^4/24\<close>, which exceeds 1 for larger \<open>mu\<close>.
\<close>

theorem zero_rate_S_constant_I_nonincreasing:
  assumes "0 < S_initial (initials self) + I_initial (initials self) + R_initial (initials self)"
    and "0 \<le> I_initial (initials self)"
    and "0 < mu self"
    and "(mu self)^3 + 12 * mu self \<le> 4 * (mu self)^2 + 24"
    and "\<forall>x \<in> set lams. x = 0"
    and "data_len self \<le> int (length lams)"
  shows "\<exists>t_n y_n. generate_SIR self lams = Inr (t_n, y_n)
           \<and> length y_n = nat (data_len self) + 1
           \<and> (\<forall>y \<in> set y_n. y0 y = S_initial (initials self))
           \<and> (\<forall>i. Suc i < length y_n \<longrightarrow> y1 (y_n ! Suc i) \<le> y1 (y_n ! i))"
proof -
  let ?N = "S_initial (initials self) + I_initial (initials self) + R_initial (initials self)"
  let ?init = "(S_initial (initials self), I_initial (initials self), R_initial (initials self))"
  let ?p = "1 - mu self + (mu self)^2 / 2 - (mu self)^3 / 6 + (mu self)^4 / 24"
  from assms(6) have "nat (data_len self) \<le> length lams" by simp
  from SIR_steps_returns [OF this] obtain t_n y_n where
    run: "SIR_steps ?N (mu self) lams ?init (nat (data_len self)) = Inr (t_n, y_n)"
    by blast
  have len: "length y_n = Suc (nat (data_len self))"
    using SIR_steps_length [OF run] by simp
  have nth: "y0 (y_n ! k) = S_initial (initials self)
             \<and> y1 (y_n ! k) = I_initial (initials self) * ?p ^ k"
    if "k < length y_n" for k
    using SIR_steps_zero_rate [OF assms(5) run, of k] that
    by (simp add: len y0_def y1_def)
  have p0: "0 \<le> ?p" using decay_factor_pos [of "mu self"] by simp
  have p1: "?p \<le> 1" using decay_factor_le_one [OF assms(3) assms(4)] .
  have gen: "generate_SIR self lams = Inr (t_n, y_n)"
    using run by (simp add: generate_SIR_def Let_def)
  have S: "y0 y = S_initial (initials self)" if "y \<in> set y_n" for y
    using that nth by (auto simp: in_set_conv_nth)
  have I: "y1 (y_n ! Suc i) \<le> y1 (y_n ! i)" if "Suc i < length y_n" for i
  proof -
    have "?p ^ Suc i \<le> ?p ^ i"
      using p0 p1 by (intro power_decreasing) simp_all
    then have "I_initial (initials self) * ?p ^ Suc i \<le> I_initial (initials self) * ?p ^ i"
      using assms(2) by (rule mult_left_mono)
    with nth [of "Suc i"] nth [of i] that show ?thesis by simp
  qed
  from gen len S I show ?thesis by auto
qed

theorem zero_rate_S_constant_I_nonincreasing_witness:
  "0 < S_initial (initials example_data) + I_initial (initials example_data)
         + R_initial (initials example_data)
   \<and> 0 \<le> I_initial (initials example_data)
   \<and> 0 < mu example_data
   \<and> (mu example_data)^3 + 12 * mu example_data \<le> 4 * (mu example_data)^2 + 24
   \<and> data_len example_data \<le> int (length [0, 0, 0 :: real])
   \<and> (\<exists>t_n y_n. generate_SIR example_data [0, 0, 0] = Inr (t_n, y_n)
          \<and> y0 (y_n ! 2) = 1000000 \<and> y1 (y_n ! 2) \<le> y1 (y_n ! 1))"
proof -
  have h1: "0 < S_initial (initials example_data) + I_initial (initials example_data)
                + R_initial (initials example_data)"
    and h2: "0 \<le> I_initial (initials example_data)"
    and h3: "0 < mu example_data"
    and h4: "(mu example_data)^3 + 12 * mu example_data \<le> 4 * (mu example_data)^2 + 24"
    and h6: "data_len example_data \<le> int (length [0, 0, 0 :: real])"
    by (simp_all add: example_data_def data_len_def power2_eq_square power3_eq_cube)
  have h5: "\<forall>x \<in> set [0, 0, 0 :: real]. x = 0" by simp
  from zero_rate_S_constant_I_nonincreasing [OF h1 h2 h3 h4 h5 h6] obtain t_n y_n where
    r: "generate_SIR example_data [0, 0, 0] = Inr (t_n, y_n)"
    and l: "length y_n = nat (data_len example_data) + 1"
    and s: "\<forall>y \<in> set y_n. y0 y = S_initial (initials example_data)"
    and i: "\<forall>i. Suc i < length y_n \<longrightarrow> y1 (y_n ! Suc i) \<le> y1 (y_n ! i)"
    by blast
  from l have l3: "length y_n = 3" by (simp add: example_data_def data_len_def)
  then have "y_n ! 2 \<in> set y_n" by simp
  with s have a: "y0 (y_n ! 2) = 1000000" by (simp add: example_data_def)
  from i l3 have "y1 (y_n ! Suc 1) \<le> y1 (y_n ! 1)" by simp
  then have b: "y1 (y_n ! 2) \<le> y1 (y_n ! 1)" by (simp add: numeral_2_eq_2)
  from r a b h1 h2 h3 h4 h6 show ?thesis by blast
qed

text \<open>
  The claim as stated fails: with \<open>mu = 3\<close>, \<open>I0 = 10\<close> and the zero rate sequence
  that the rate curve of \<open>stiff_data\<close> is, one step takes \<open>I\<close> from 10 to 13.75.
\<close>

theorem zero_rate_I_increases_counterexample:
  "change_points_to_lambda_t stiff_data = Inr [0, 0]
   \<and> generate_SIR stiff_data [0, 0]
     = Inr ([0, 1], [(1000000, 10, 0), (1000000, 55 / 4, - 15 / 4)])
   \<and> y1 (1000000, 10, 0) < y1 (1000000, 55 / 4, - 15 / 4)"
  by (simp add: change_points_to_lambda_t_def helper_lambda_between_def numeral_2_eq_2
        generate_SIR_def stiff_data_def data_len_def Let_def RK4_def f_def
        vadd_def vscale_def vdiv_def y0_def y1_def)

subsection \<open>The rate curve\<close>

text \<open>
  Claim C1. With an empty change-point list the rate curve should hold \<open>lambda0\<close> on
  every day of the window. The source indexes \<open>change_points[0]\<close> without a guard:
  on the empty list \<open>_change_points_to_lambda_t\<close> raises \<open>IndexError\<close> for every
  window and every \<open>lambda0\<close>.
\<close>

theorem empty_change_points_raise:
  "change_points_to_lambda_t (self\<lparr>initials := (initials self)\<lparr>change_points := []\<rparr>\<rparr>)
     = Inl IndexError"
  by (simp add: change_points_to_lambda_t_def)

text \<open>The empty list is what the default initialisation produces on a window without a
  Sunday, here 2020-03-10 to 2020-03-12.\<close>

lemma date_range_no_sunday: "date_range 737494 737496 = [737494, 737495, 737496]"
  by (simp add: date_range_def upt_rec)

lemma default_change_points_empty:
  "kw_change_points kw = None \<Longrightarrow> change_points (update_initial 737494 737496 kw dr) = []"
  by (simp add: update_initial_def date_range_no_sunday weekday_def)

lemma helper_lambda_between_length:
  "length (helper_lambda_between cp1 cp2) = nat \<bar>fst cp1 - fst cp2\<bar>"
  by (simp add: helper_lambda_between_def Let_def)

lemma between_all_length:
  "sorted (map fst cps) \<Longrightarrow> cps \<noteq> [] \<Longrightarrow>
   int (length (between_all cps)) = fst (last cps) - fst (hd cps)"
proof (induction cps rule: between_all.induct)
  case 1
  then show ?case by simp
next
  case (2 cp)
  then show ?case by simp
next
  case (3 cp1 cp2 cps)
  then show ?case by (simp add: helper_lambda_between_length)
qed

lemma date_range_length: "length (date_range a b) = nat (b - a + 1)"
  by (simp add: date_range_def)

lemma change_points_to_lambda_t_length:
  assumes ne: "change_points (initials self) \<noteq> []"
    and win: "\<forall>cp \<in> set (change_points (initials self)).
                data_begin self \<le> fst cp \<and> fst cp \<le> data_end self"
  shows "\<exists>lams. change_points_to_lambda_t self = Inr lams
           \<and> int (length lams) = data_end self - data_begin self + 1"
proof -
  let ?cps = "sort_key fst (change_points (initials self))"
  have srt: "sorted (map fst ?cps)" by (rule sorted_sort_key)
  have st: "set ?cps = set (change_points (initials self))" by simp
  from ne have ne': "?cps \<noteq> []" by (metis st set_empty)
  then obtain cp0 rest where c: "?cps = cp0 # rest" by (cases ?cps) auto
  have "hd ?cps \<in> set ?cps" "last ?cps \<in> set ?cps"
    using ne' by (rule hd_in_set, rule last_in_set)
  with win st have hd: "data_begin self \<le> fst (hd ?cps)"
    and lst: "fst (last ?cps) \<le> data_end self" by auto
  from c have hd0: "hd ?cps = cp0" by simp
  have ba: "int (length (between_all ?cps)) = fst (last ?cps) - fst (hd ?cps)"
    using srt ne' by (rule between_all_length)
  have "change_points_to_lambda_t self =
          Inr (helper_lambda_between (data_begin self, lambda_initial (initials self)) cp0
               @ between_all ?cps
               @ replicate (nat (data_end self - fst (last ?cps) + 1)) (snd (last ?cps)))"
    using c by (simp add: change_points_to_lambda_t_def Let_def)
  moreover have "int (length (helper_lambda_between (data_begin self, lambda_initial (initials self)) cp0
               @ between_all ?cps
               @ replicate (nat (data_end self - fst (last ?cps) + 1)) (snd (last ?cps))))
         = data_end self - data_begin self + 1"
    using hd lst ba hd0 by (simp add: helper_lambda_between_length)
  ultimately show ?thesis by simp
qed

subsection \<open>The weekly modulation\<close>

lemma week_modulation_steps_length:
  "week_modulation_steps self t_n raw n = Inr nc \<Longrightarrow> length nc = n"
  by (induction n arbitrary: nc) (auto split: sum.splits if_splits)

lemma week_modulation_steps_returns:
  "n \<le> length raw \<Longrightarrow> \<exists>nc. week_modulation_steps self t_n raw n = Inr nc"
  by (induction n) auto

lemma week_modulation_steps_nth:
  "week_modulation_steps self t_n raw n = Inr nc \<Longrightarrow> i < n \<Longrightarrow>
   nc ! i = raw ! i * (1 - week_f self (t_n ! i))"
proof (induction n arbitrary: nc)
  case 0
  then show ?case by simp
next
  case (Suc n)
  from Suc.prems(1) obtain nc' where
    prev: "week_modulation_steps self t_n raw n = Inr nc'" and
    nc: "nc = nc' @ [raw ! n * (1 - week_f self (t_n ! n))]"
    by (auto split: sum.splits if_splits)
  from week_modulation_steps_length [OF prev] have len: "length nc' = n" .
  show ?case
  proof (cases "i = n")
    case True
    then show ?thesis by (simp add: nc nth_append len)
  next
    case False
    with Suc.prems(2) have "i < n" by simp
    with Suc.IH [OF prev] show ?thesis by (simp add: nc nth_append len)
  qed
qed

lemma week_f_bounds:
  assumes "0 \<le> weekend_factor (initials self)" and "weekend_factor (initials self) \<le> 1"
  shows "0 \<le> week_f self t \<and> week_f self t \<le> 1"
proof -
  let ?s = "sin (pi / 7 * t - 1 / 2 * offset_sunday (initials self))"
  have a: "0 \<le> 1 - \<bar>?s\<bar>" and b: "1 - \<bar>?s\<bar> \<le> 1"
    using abs_sin_le_one [of "pi / 7 * t - 1 / 2 * offset_sunday (initials self)"] by simp_all
  have "0 \<le> weekend_factor (initials self) * (1 - \<bar>?s\<bar>)"
    using assms(1) a by (rule mult_nonneg_nonneg)
  moreover have "weekend_factor (initials self) * (1 - \<bar>?s\<bar>) \<le> 1 * 1"
    using assms(2) b assms(1) a by (intro mult_mono) simp_all
  ultimately show ?thesis by (simp add: week_f_def Let_def)
qed

text \<open>
  Claim C8. For every non-negative input series, every weekend factor in \<open>[0, 1]\<close> and
  every Sunday offset, the output of \<open>_week_modulation\<close> is element-wise at most the
  input and never negative. The function returns (one entry per time step) when the raw
  series is at least as long as \<open>t_n\<close>.
\<close>

theorem week_modulation_only_reduces:
  assumes "\<forall>x \<in> set raw. 0 \<le> x"
    and "0 \<le> weekend_factor (initials self)"
    and "weekend_factor (initials self) \<le> 1"
    and "length t_n \<le> length raw"
  shows "\<exists>nc. week_modulation self t_n raw = Inr nc
           \<and> length nc = length t_n
           \<and> (\<forall>i. i < length nc \<longrightarrow> 0 \<le> nc ! i \<and> nc ! i \<le> raw ! i)"
proof -
  from week_modulation_steps_returns [OF assms(4)] obtain nc where
    run: "week_modulation_steps self t_n raw (length t_n) = Inr nc" by blast
  have len: "length nc = length t_n" using run by (rule week_modulation_steps_length)
  have bound: "0 \<le> nc ! i \<and> nc ! i \<le> raw ! i" if "i < length nc" for i
  proof -
    from that len have i: "i < length t_n" by simp
    with assms(4) have "raw ! i \<in> set raw" by simp
    with assms(1) have r: "0 \<le> raw ! i" by blast
    from week_f_bounds [OF assms(2) assms(3), of "t_n ! i"]
    have c0: "0 \<le> 1 - week_f self (t_n ! i)" and c1: "1 - week_f self (t_n ! i) \<le> 1"
      by simp_all
    have eq: "nc ! i = raw ! i * (1 - week_f self (t_n ! i))"
      using run i by (rule week_modulation_steps_nth)
    have "0 \<le> raw ! i * (1 - week_f self (t_n ! i))"
      using r c0 by (rule mult_nonneg_nonneg)
    moreover have "raw ! i * (1 - week_f self (t_n ! i)) \<le> raw ! i"
      using mult_left_mono [OF c1 r] by simp
    ultimately show ?thesis by (simp add: eq)
  qed
  from run len bound show ?thesis by (auto simp: week_modulation_def)
qed

theorem week_modulation_only_reduces_witness:
  "0 \<le> weekend_factor (initials example_data)
   \<and> weekend_factor (initials example_data) \<le> 1
   \<and> length [0, 1 :: real] \<le> length [4, 7 :: real]
   \<and> (\<exists>nc. week_modulation example_data [0, 1] [4, 7] = Inr nc
          \<and> length nc = 2 \<and> 0 \<le> nc ! 1 \<and> nc ! 1 \<le> 7)"
proof -
  have h1: "\<forall>x \<in> set [4, 7 :: real]. 0 \<le> x" by simp
  have h2: "0 \<le> weekend_factor (initials example_data)"
    and h3: "weekend_factor (initials example_data) \<le> 1"
    by (simp_all add: example_data_def)
  have h4: "length [0, 1 :: real] \<le> length [4, 7 :: real]" by simp
  from week_modulation_only_reduces [OF h1 h2 h3 h4] obtain nc where
    r: "week_modulation example_data [0, 1] [4, 7] = Inr nc"
    and l: "length nc = length [0, 1 :: real]"
    and b: "\<forall>i. i < length nc \<longrightarrow> 0 \<le> nc ! i \<and> nc ! i \<le> [4, 7] ! i"
    by blast
  from l have l2: "length nc = 2" by simp
  then have "(1::nat) < length nc" by simp
  with b have "0 \<le> nc ! 1 \<and> nc ! 1 \<le> [4, 7 :: real] ! 1" by blast
  then have "0 \<le> nc ! 1 \<and> nc ! 1 \<le> 7" by simp
  with r l2 h2 h3 h4 show ?thesis by blast
qed

subsection \<open>The noise\<close>

lemma random_noise_steps_length:
  "random_noise_steps nb alpha array0 st0 n = Inr (array, st) \<Longrightarrow> length array = length array0"
  by (induction n arbitrary: array st) (auto split: sum.splits if_splits prod.splits)

lemma random_noise_steps_untouched:
  "random_noise_steps nb alpha array0 st0 n = Inr (array, st) \<Longrightarrow> n \<le> i \<Longrightarrow>
   array ! i = array0 ! i"
  by (induction n arbitrary: array st) (auto split: sum.splits if_splits prod.splits)

lemma convert_valid:
  assumes "0 < alpha" and "0 \<le> m"
  shows "m + 1 / alpha \<noteq> 0 \<and> nbinom_argcheck (1 / alpha) (1 - m / (m + 1 / alpha))"
proof -
  from assms have r: "0 < 1 / alpha" by simp
  with assms(2) have pos: "0 < m + 1 / alpha" by linarith
  have "0 \<le> m / (m + 1 / alpha)"
    using assms(2) pos by (intro divide_nonneg_pos)
  moreover have "m / (m + 1 / alpha) \<le> 1"
    using pos r by (simp add: divide_le_eq_1)
  ultimately show ?thesis
    using r pos by (simp add: nbinom_argcheck_def)
qed

lemma random_noise_steps_returns:
  assumes "0 < alpha" and "\<forall>x \<in> set array0. 0 \<le> x"
  shows "n \<le> length array0 \<Longrightarrow>
         \<exists>array st. random_noise_steps nb alpha array0 st0 n = Inr (array, st)"
proof (induction n)
  case 0
  then show ?case by simp
next
  case (Suc n)
  then obtain a' s' where
    prev: "random_noise_steps nb alpha array0 st0 n = Inr (a', s')" by auto
  have same: "a' ! n = array0 ! n"
    using prev by (rule random_noise_steps_untouched) simp
  from Suc.prems have "array0 ! n \<in> set array0" by simp
  with assms(2) have "0 \<le> a' ! n" by (simp add: same)
  from convert_valid [OF assms(1) this] assms(1) prev show ?case
    by (auto simp: convert_def Let_def split: prod.splits)
qed

lemma random_noise_steps_nth:
  "random_noise_steps nb alpha array0 st0 n = Inr (array, st) \<Longrightarrow> i < n \<Longrightarrow>
   n \<le> length array0 \<Longrightarrow>
   (array0 ! i = 0 \<longrightarrow> array ! i = 0)
   \<and> (array0 ! i \<noteq> 0 \<longrightarrow>
        (\<exists>s. array ! i = fst (rvs nb (1 / alpha) (1 - array0 ! i / (array0 ! i + 1 / alpha)) s)))"
proof (induction n arbitrary: array st)
  case 0
  then show ?case by simp
next
  case (Suc n)
  from Suc.prems(1) obtain a' s' where
    prev: "random_noise_steps nb alpha array0 st0 n = Inr (a', s')"
    by (auto split: sum.splits)
  have len: "length a' = length array0" using prev by (rule random_noise_steps_length)
  have same: "a' ! n = array0 ! n"
    using prev by (rule random_noise_steps_untouched) simp
  from Suc.prems(3) have n: "n < length a'" and n': "n \<le> length array0" by (simp_all add: len)
  show ?case
  proof (cases "a' ! n = 0")
    case True
    with Suc.prems(1) prev have arr: "array = a'" by simp
    show ?thesis
    proof (cases "i = n")
      case True
      with \<open>a' ! n = 0\<close> same show ?thesis by (simp add: arr)
    next
      case False
      with Suc.prems(2) have "i < n" by simp
      with Suc.IH [OF prev _ n'] show ?thesis by (simp add: arr)
    qed
  next
    case False
    with Suc.prems(1) prev obtain v s'' where
      alpha: "alpha \<noteq> 0" and
      draw: "rvs nb (1 / alpha) (1 - a' ! n / (a' ! n + 1 / alpha)) s' = (v, s'')" and
      arr: "array = a'[n := v]"
      by (auto simp: convert_def Let_def split: if_splits prod.splits)
    show ?thesis
    proof (cases "i = n")
      case True
      have "array ! n = fst (rvs nb (1 / alpha) (1 - a' ! n / (a' ! n + 1 / alpha)) s')"
        using n by (simp add: arr draw)
      with True False same show ?thesis by auto
    next
      case False
      with Suc.prems(2) have "i < n" by simp
      with Suc.IH [OF prev _ n'] False show ?thesis by (simp add: arr)
    qed
  qed
qed

lemma random_noise_length:
  "random_noise nb self df = Inr out \<Longrightarrow> length out = length df"
  by (auto simp: random_noise_def split: sum.splits dest: random_noise_steps_length)

text \<open>
  Claim C7. For every non-negative input series and every noise factor \<open>alpha > 0\<close>,
  \<open>_random_noise\<close> leaves every zero entry unchanged and replaces every strictly
  positive entry \<open>mu_i\<close> by a draw \<open>nbinom.rvs(r, 1 - p)\<close> with \<open>r = 1 / alpha\<close> and
  \<open>p = mu_i / (mu_i + r)\<close>; the length is kept.
\<close>

theorem random_noise_contract:
  assumes "\<forall>x \<in> set df. 0 \<le> x"
    and "0 < noise_factor (initials self)"
  shows "\<exists>out. random_noise nb self df = Inr out
           \<and> length out = length df
           \<and> (\<forall>i. i < length df \<longrightarrow>
                 (df ! i = 0 \<longrightarrow> out ! i = 0)
                 \<and> (0 < df ! i \<longrightarrow>
                      (\<exists>st. out ! i = fst (rvs nb (1 / noise_factor (initials self))
                               (1 - df ! i / (df ! i + 1 / noise_factor (initials self))) st))))"
proof -
  let ?alpha = "noise_factor (initials self)"
  from random_noise_steps_returns [OF assms(2) assms(1) order_refl,
      of nb "RandomState nb (seed self)"]
  obtain out st where
    run: "random_noise_steps nb ?alpha df (RandomState nb (seed self)) (length df) = Inr (out, st)"
    by blast
  have res: "random_noise nb self df = Inr out"
    using run by (simp add: random_noise_def)
  have len: "length out = length df" using run by (rule random_noise_steps_length)
  have "(df ! i = 0 \<longrightarrow> out ! i = 0)
        \<and> (0 < df ! i \<longrightarrow>
             (\<exists>st. out ! i = fst (rvs nb (1 / ?alpha) (1 - df ! i / (df ! i + 1 / ?alpha)) st)))"
    if "i < length df" for i
    using random_noise_steps_nth [OF run that order_refl] by auto
  with res len show ?thesis by blast
qed

theorem random_noise_contract_witness:
  "0 < noise_factor (initials example_data)
   \<and> random_noise example_nbinom example_data [0, 5, 0] = Inr [0, 7, 0]"
proof -
  have h1: "\<forall>x \<in> set [0, 5, 0 :: real]. 0 \<le> x" by simp
  have h2: "0 < noise_factor (initials example_data)" by (simp add: example_data_def)
  from random_noise_contract [OF h1 h2, of example_nbinom] obtain out where
    r: "random_noise example_nbinom example_data [0, 5, 0] = Inr out"
    and l: "length out = length [0, 5, 0 :: real]"
    and c: "\<forall>i. i < length [0, 5, 0 :: real] \<longrightarrow>
              ([0, 5, 0 :: real] ! i = 0 \<longrightarrow> out ! i = 0)
              \<and> (0 < [0, 5, 0 :: real] ! i \<longrightarrow>
                   (\<exists>st. out ! i = fst (rvs example_nbinom (1 / noise_factor (initials example_data))
                      (1 - [0, 5, 0] ! i / ([0, 5, 0] ! i + 1 / noise_factor (initials example_data))) st)))"
    by blast
  from c [rule_format, of 0] have a0: "out ! 0 = 0" by simp
  from c [rule_format, of 1] have a1: "out ! 1 = 7" by (simp add: example_nbinom_def)
  from c [rule_format, of 2] have a2: "out ! 2 = 0" by simp
  have "out = [0, 7, 0]"
    by (rule nth_equalityI) (use l a0 a1 a2 in \<open>auto simp: less_Suc_eq numeral_3_eq_3 numeral_2_eq_2\<close>)
  with r h2 show ?thesis by simp
qed

subsection \<open>The pipeline and the lengths of its series\<close>

lemma generate_SIR_returns:
  "data_len self \<le> int (length lams) \<Longrightarrow>
   \<exists>t_n data. generate_SIR self lams = Inr (t_n, data)
      \<and> length t_n = nat (data_len self) + 1 \<and> length data = nat (data_len self) + 1"
proof -
  assume "data_len self \<le> int (length lams)"
  then have "nat (data_len self) \<le> length lams" by simp
  from SIR_steps_returns [OF this] obtain t_n y_n where
    run: "SIR_steps (S_initial (initials self) + I_initial (initials self) + R_initial (initials self))
            (mu self) lams
            (S_initial (initials self), I_initial (initials self), R_initial (initials self))
            (nat (data_len self)) = Inr (t_n, y_n)"
    by blast
  from SIR_steps_length [OF run] run show ?thesis
    by (simp add: generate_SIR_def Let_def)
qed

lemma generate_SIR_lengths:
  "generate_SIR self lams = Inr (t_n, data) \<Longrightarrow>
   length t_n = nat (data_len self) + 1 \<and> length data = nat (data_len self) + 1"
  by (auto simp: generate_SIR_def Let_def dest: SIR_steps_length)

lemma week_modulation_pipeline:
  "length data = length t_n \<Longrightarrow>
   \<exists>nc. week_modulation self t_n (calc_new_cases_raw (map y1 data)) = Inr nc
      \<and> length nc = length t_n"
proof -
  assume "length data = length t_n"
  then have "length t_n \<le> length (calc_new_cases_raw (map y1 data))"
    by (simp add: calc_new_cases_raw_length)
  from week_modulation_steps_returns [OF this] obtain nc where
    run: "week_modulation_steps self t_n (calc_new_cases_raw (map y1 data)) (length t_n) = Inr nc"
    by blast
  from week_modulation_steps_length [OF run] run show ?thesis
    by (simp add: week_modulation_def)
qed

lemma shift_length: "length (shift periods v xs) = length xs"
  by (auto simp: shift_def Let_def)

lemma shift_nth:
  "0 \<le> periods \<Longrightarrow> i < length xs \<Longrightarrow>
   shift periods v xs ! i = (if i < nat periods then v else xs ! (i - nat periods))"
  by (auto simp: shift_def Let_def nth_append)

lemma generate_Inr:
  assumes "generate nb self = Inr df"
  shows "\<exists>lams t_n data nc.
           change_points_to_lambda_t self = Inr lams
         \<and> generate_SIR self lams = Inr (t_n, data)
         \<and> week_modulation self t_n (calc_new_cases_raw (map y1 data)) = Inr nc
         \<and> frame_index (dates self) nc = Inr (date_index df)
         \<and> length lams = length (date_index df)
         \<and> lambda_t df = lams
         \<and> (if add_noise self
             then random_noise nb self (delay_cases self nc) = Inr (new_cases df)
             else new_cases df = delay_cases self nc)"
  using assms
  by (auto simp: generate_def Let_def dates_def split: sum.splits prod.splits if_splits)

lemma frame_index_length: "frame_index ds col = Inr idx \<Longrightarrow> length idx = length col"
  by (auto simp: frame_index_def split: if_splits)

lemma week_modulation_length:
  "week_modulation self t_n raw = Inr nc \<Longrightarrow> length nc = length t_n"
  by (simp add: week_modulation_def week_modulation_steps_length)

lemma random_noise_zero:
  "random_noise nb self df = Inr out \<Longrightarrow> i < length df \<Longrightarrow> df ! i = 0 \<Longrightarrow> out ! i = 0"
proof -
  assume r: "random_noise nb self df = Inr out" and i: "i < length df" and z: "df ! i = 0"
  from r obtain st where
    run: "random_noise_steps nb (noise_factor (initials self)) df
            (RandomState nb (seed self)) (length df) = Inr (out, st)"
    by (auto simp: random_noise_def split: sum.splits)
  from random_noise_steps_nth [OF run i order_refl] z show ?thesis by simp
qed

lemma dates_length: "length (dates self) = nat (data_end self - data_begin self + 1)"
  by (simp add: dates_def date_range_length)

lemma generate_new_cases_length:
  "generate nb self = Inr df \<Longrightarrow>
   change_points_to_lambda_t self = Inr (lambda_t df)
   \<and> length (new_cases df) = length (date_index df)
   \<and> length (lambda_t df) = length (date_index df)"
proof -
  assume g: "generate nb self = Inr df"
  from generate_Inr [OF g] obtain lams nc where
    l: "change_points_to_lambda_t self = Inr lams" and
    fi: "frame_index (dates self) nc = Inr (date_index df)" and
    ll: "length lams = length (date_index df)" and
    lam: "lambda_t df = lams" and
    col: "if add_noise self
          then random_noise nb self (delay_cases self nc) = Inr (new_cases df)
          else new_cases df = delay_cases self nc"
    by blast
  from frame_index_length [OF fi] have len: "length (date_index df) = length nc" .
  have "length (new_cases df) = length (date_index df)"
  proof (cases "add_noise self")
    case True
    with col have "random_noise nb self (delay_cases self nc) = Inr (new_cases df)" by simp
    from random_noise_length [OF this] show ?thesis
      by (simp add: delay_cases_def shift_length len)
  next
    case False
    with col show ?thesis by (simp add: delay_cases_def shift_length len)
  qed
  with l ll lam show ?thesis by simp
qed

text \<open>
  Where the change-point list is not empty and every change point lies inside the window,
  the lengths agree: the rate sequence has one entry per day of the window, both end
  days counted. Its length is \<open>data_len + 1\<close>, the length of the dates index, of the
  modulated series and of the \<open>new_cases\<close> column of any frame that \<open>generate\<close>
  returns.
\<close>

lemma lambda_t_length_in_window:
  assumes "change_points (initials self) \<noteq> []"
    and "\<forall>cp \<in> set (change_points (initials self)).
           data_begin self \<le> fst cp \<and> fst cp \<le> data_end self"
  shows "\<exists>lams. change_points_to_lambda_t self = Inr lams
           \<and> int (length lams) = data_len self + 1
           \<and> length lams = length (dates self)
           \<and> (\<exists>t_n data nc. generate_SIR self lams = Inr (t_n, data)
                  \<and> week_modulation self t_n (calc_new_cases_raw (map y1 data)) = Inr nc
                  \<and> length nc = length lams)
           \<and> (\<forall>nb df. generate (nb :: 's nbinom) self = Inr df \<longrightarrow>
                  length (new_cases df) = length lams)"
proof -
  from change_points_to_lambda_t_length [OF assms] obtain lams where
    l: "change_points_to_lambda_t self = Inr lams" and
    n: "int (length lams) = data_end self - data_begin self + 1"
    by blast
  from n have dl: "int (length lams) = data_len self + 1" by (simp add: data_len_def)
  from n have dt: "length lams = length (dates self)" by (simp add: dates_length)
  from dl have "data_len self \<le> int (length lams)" by simp
  from generate_SIR_returns [OF this] obtain t_n data where
    g: "generate_SIR self lams = Inr (t_n, data)" and
    lt: "length t_n = nat (data_len self) + 1" and
    ld: "length data = nat (data_len self) + 1"
    by blast
  from lt ld have "length data = length t_n" by simp
  from week_modulation_pipeline [OF this] obtain nc where
    w: "week_modulation self t_n (calc_new_cases_raw (map y1 data)) = Inr nc" and
    ln: "length nc = length t_n"
    by blast
  from assms obtain cp where "data_begin self \<le> fst cp" "fst cp \<le> data_end self"
    by (cases "change_points (initials self)") auto
  then have "0 \<le> data_len self" by (simp add: data_len_def)
  with ln lt dl have "length nc = length lams" by simp
  with g w have pipe: "\<exists>t_n data nc. generate_SIR self lams = Inr (t_n, data)
      \<and> week_modulation self t_n (calc_new_cases_raw (map y1 data)) = Inr nc
      \<and> length nc = length lams"
    by blast
  have "length (new_cases df) = length lams" if "generate nb self = Inr df"
    for nb :: "'s nbinom" and df
    using generate_new_cases_length [OF that] l by simp
  with l dl dt pipe show ?thesis by blast
qed

lemma lambda_t_length_in_window_example:
  "change_points (initials two_cp_data) \<noteq> []
   \<and> (\<exists>lams. change_points_to_lambda_t two_cp_data = Inr lams
          \<and> length lams = 11 \<and> length (dates two_cp_data) = 11)"
proof -
  have h1: "change_points (initials two_cp_data) \<noteq> []"
    by (simp add: two_cp_data_def)
  have h2: "\<forall>cp \<in> set (change_points (initials two_cp_data)).
              data_begin two_cp_data \<le> fst cp \<and> fst cp \<le> data_end two_cp_data"
    by (simp add: two_cp_data_def)
  from lambda_t_length_in_window [OF h1 h2] obtain lams where
    l: "change_points_to_lambda_t two_cp_data = Inr lams" and
    n: "int (length lams) = data_len two_cp_data + 1" and
    d: "length lams = length (dates two_cp_data)"
    by blast
  from n have "length lams = 11" by (simp add: data_len_def two_cp_data_def)
  with l d h1 show ?thesis by auto
qed

text \<open>Outside that case the lengths differ. When the rate sequence is longer than the
  dates index, \<open>generate\<close> raises at \<open>df["lambda_t"] = self.lambda_t\<close>.\<close>

lemma docstring_change_points:
  "change_points (initials docstring_data) =
     [(737499, 1 / 5), (737506, 1 / 5), (737513, 1 / 5), (737520, 1 / 5), (737527, 1 / 5),
      (737534, 1 / 5), (737543, 1 / 5)]"
  by (simp add: docstring_data_def update_initial_def no_overrides_def late_draws_def
        date_range_def upt_rec weekday_def py_int_def)

lemma generate_length_mismatch:
  assumes l: "change_points_to_lambda_t self = Inr lams"
    and win: "data_begin self \<le> data_end self"
    and long: "length (dates self) < length lams"
  shows "generate nb self = Inl ValueError"
proof -
  from win have dl: "length (dates self) = nat (data_len self) + 1"
    by (simp add: dates_length data_len_def)
  with long have "data_len self \<le> int (length lams)" by simp
  from generate_SIR_returns [OF this] obtain t_n data where
    g: "generate_SIR self lams = Inr (t_n, data)" and
    lt: "length t_n = nat (data_len self) + 1" and
    ld: "length data = nat (data_len self) + 1"
    by blast
  from lt ld have "length data = length t_n" by simp
  from week_modulation_pipeline [OF this] obtain nc where
    w: "week_modulation self t_n (calc_new_cases_raw (map y1 data)) = Inr nc" and
    ln: "length nc = length t_n"
    by blast
  from ln lt dl have "length nc = length (dates self)" by simp
  moreover from dl have "dates self \<noteq> []" by auto
  ultimately have fi: "frame_index (date_range (data_begin self) (data_end self)) nc
                       = Inr (map Some (dates self))"
    by (simp add: frame_index_def dates_def)
  from l g w fi long show ?thesis
    by (simp add: generate_def Let_def)
qed

lemma early_cp_lams_length:
  "\<exists>lams. change_points_to_lambda_t early_cp_data = Inr lams \<and> length lams = 15"
  by (simp add: change_points_to_lambda_t_def early_cp_data_def helper_lambda_between_length)

text \<open>
  Claim C2. The rate sequence of \<open>_change_points_to_lambda_t\<close> should have exactly one
  entry per day of the window, the length of the dates index and of the \<open>new_cases\<close>
  series, for every window and every change-point list. The source never checks the
  change points against the window: the leading segment takes the absolute day
  difference and the trailing one is empty past the end. A change point outside the
  window gives more rates than dates, and \<open>generate\<close> raises \<open>ValueError\<close>. The window
  2020-03-10 to 2020-03-20 with the change point 2020-03-08 gives 15 rates for 11 dates.
  The docstring's window 2020-03-10 to 2020-04-26 with default change points, the last
  Sunday drawn two days late, gives 49 rates for 48 dates.
\<close>

theorem lambda_t_length_out_of_window:
  "map_sum id length (change_points_to_lambda_t early_cp_data) = Inr 15
   \<and> length (dates early_cp_data) = 11
   \<and> generate example_nbinom early_cp_data = Inl ValueError
   \<and> init example_nbinom late_draws 737494 737541 (13 / 100) False False (Some 1) no_overrides
       = Inr docstring_data
   \<and> map_sum id length (change_points_to_lambda_t docstring_data) = Inr 49
   \<and> length (dates docstring_data) = 48
   \<and> generate example_nbinom docstring_data = Inl ValueError"
proof -
  have a: "map_sum id length (change_points_to_lambda_t early_cp_data) = Inr 15"
    by (simp add: change_points_to_lambda_t_def early_cp_data_def helper_lambda_between_length)
  have b: "length (dates early_cp_data) = 11"
    by (simp add: dates_length early_cp_data_def)
  from early_cp_lams_length obtain lams where
    l: "change_points_to_lambda_t early_cp_data = Inr lams" and n: "length lams = 15"
    by blast
  have c: "generate example_nbinom early_cp_data = Inl ValueError"
    by (rule generate_length_mismatch [OF l]) (simp_all add: b n, simp add: early_cp_data_def)
  have d: "init example_nbinom late_draws 737494 737541 (13 / 100) False False (Some 1)
             no_overrides = Inr docstring_data"
    by (simp add: init_def np_random_seed_def docstring_data_def)
  have e: "map_sum id length (change_points_to_lambda_t docstring_data) = Inr 49"
    by (simp add: change_points_to_lambda_t_def docstring_change_points
          helper_lambda_between_length)
       (simp add: docstring_data_def)
  have f48: "length (dates docstring_data) = 48"
    by (simp add: dates_length docstring_data_def)
  from e obtain lams' where
    l': "change_points_to_lambda_t docstring_data = Inr lams'" and n': "length lams' = 49"
    by (cases "change_points_to_lambda_t docstring_data") auto
  have g: "generate example_nbinom docstring_data = Inl ValueError"
    by (rule generate_length_mismatch [OF l']) (simp_all add: f48 n', simp add: docstring_data_def)
  from a b c d e f48 g show ?thesis by simp
qed

subsection \<open>The output frame\<close>

lemma pipeline_returns:
  assumes "change_points (initials self) \<noteq> []"
    and "\<forall>cp \<in> set (change_points (initials self)).
           data_begin self \<le> fst cp \<and> fst cp \<le> data_end self"
  shows "\<exists>lams t_n data nc.
           change_points_to_lambda_t self = Inr lams
         \<and> generate_SIR self lams = Inr (t_n, data)
         \<and> week_modulation self t_n (calc_new_cases_raw (map y1 data)) = Inr nc
         \<and> length lams = length (dates self)
         \<and> length nc = length (dates self)
         \<and> dates self \<noteq> []"
proof -
  from change_points_to_lambda_t_length [OF assms] obtain lams where
    l: "change_points_to_lambda_t self = Inr lams" and
    n: "int (length lams) = data_end self - data_begin self + 1"
    by blast
  from assms obtain cp where "data_begin self \<le> fst cp" "fst cp \<le> data_end self"
    by (cases "change_points (initials self)") auto
  then have pos: "0 \<le> data_len self" by (simp add: data_len_def)
  from n have dt: "length lams = length (dates self)" by (simp add: dates_length)
  from n have "data_len self \<le> int (length lams)" by (simp add: data_len_def)
  from generate_SIR_returns [OF this] obtain t_n data where
    g: "generate_SIR self lams = Inr (t_n, data)" and
    lt: "length t_n = nat (data_len self) + 1" and
    ld: "length data = nat (data_len self) + 1"
    by blast
  from lt ld have "length data = length t_n" by simp
  from week_modulation_pipeline [OF this] obtain nc where
    w: "week_modulation self t_n (calc_new_cases_raw (map y1 data)) = Inr nc" and
    ln: "length nc = length t_n"
    by blast
  from ln lt pos have "length nc = length (dates self)"
    by (simp add: dates_length data_len_def)
  moreover from pos have "dates self \<noteq> []"
    by (simp add: dates_def date_range_def data_len_def)
  ultimately show ?thesis using l g w dt by blast
qed

lemma generate_returns:
  assumes "change_points (initials self) \<noteq> []"
    and "\<forall>cp \<in> set (change_points (initials self)).
           data_begin self \<le> fst cp \<and> fst cp \<le> data_end self"
    and "\<not> add_noise self"
  shows "\<exists>df. generate nb self = Inr df"
proof -
  from pipeline_returns [OF assms(1,2)] obtain lams t_n data nc where
    l: "change_points_to_lambda_t self = Inr lams" and
    g: "generate_SIR self lams = Inr (t_n, data)" and
    w: "week_modulation self t_n (calc_new_cases_raw (map y1 data)) = Inr nc" and
    ll: "length lams = length (dates self)" and
    ln: "length nc = length (dates self)" and
    ne: "dates self \<noteq> []"
    by blast
  from ln ne have fi: "frame_index (date_range (data_begin self) (data_end self)) nc
                       = Inr (map Some (dates self))"
    by (simp add: frame_index_def dates_def)
  from l g w ll fi assms(3) show ?thesis
    by (simp add: generate_def Let_def)
qed

text \<open>
  Claim C6, amended. In the frame that \<open>generate\<close> returns (delay \<open>d \<ge> 0\<close>), the
  \<open>lambda_t\<close> column is the raw rate sequence of \<open>_change_points_to_lambda_t\<close>, not
  shifted. The \<open>new_cases\<close> column has the length of the modulated series and its first
  \<open>d\<close> entries are zero. With noise off it is the modulated series shifted forward by
  \<open>d\<close> places: entry \<open>i \<ge> d\<close> is the modulated entry \<open>i - d\<close>. With noise on it is
  \<open>_random_noise\<close> applied to that shifted series.
\<close>

theorem generate_columns:
  assumes "generate nb self = Inr df"
    and "0 \<le> case_delay (initials self)"
  shows "\<exists>lams t_n data nc.
           change_points_to_lambda_t self = Inr lams
         \<and> generate_SIR self lams = Inr (t_n, data)
         \<and> week_modulation self t_n (calc_new_cases_raw (map y1 data)) = Inr nc
         \<and> lambda_t df = lams
         \<and> length (new_cases df) = length nc
         \<and> (\<forall>i. i < length nc \<and> i < nat (case_delay (initials self)) \<longrightarrow> new_cases df ! i = 0)
         \<and> (\<not> add_noise self \<longrightarrow>
               (\<forall>i. i < length nc \<and> nat (case_delay (initials self)) \<le> i \<longrightarrow>
                  new_cases df ! i = nc ! (i - nat (case_delay (initials self)))))
         \<and> (add_noise self \<longrightarrow>
               random_noise nb self (shift (case_delay (initials self)) 0 nc) = Inr (new_cases df))"
proof -
  let ?d = "case_delay (initials self)"
  from generate_Inr [OF assms(1)] obtain lams t_n data nc where
    l: "change_points_to_lambda_t self = Inr lams" and
    g: "generate_SIR self lams = Inr (t_n, data)" and
    w: "week_modulation self t_n (calc_new_cases_raw (map y1 data)) = Inr nc" and
    lam: "lambda_t df = lams" and
    col: "if add_noise self
          then random_noise nb self (delay_cases self nc) = Inr (new_cases df)
          else new_cases df = delay_cases self nc"
    by blast
  have sh: "shift ?d 0 nc ! i = (if i < nat ?d then 0 else nc ! (i - nat ?d))"
    if "i < length nc" for i
    using assms(2) that by (rule shift_nth)
  have len: "length (new_cases df) = length nc"
  proof (cases "add_noise self")
    case True
    with col have "random_noise nb self (delay_cases self nc) = Inr (new_cases df)" by simp
    from random_noise_length [OF this] show ?thesis by (simp add: delay_cases_def shift_length)
  next
    case False
    with col show ?thesis by (simp add: delay_cases_def shift_length)
  qed
  have zero: "new_cases df ! i = 0" if "i < length nc" "i < nat ?d" for i
  proof (cases "add_noise self")
    case True
    with col have r: "random_noise nb self (shift ?d 0 nc) = Inr (new_cases df)"
      by (simp add: delay_cases_def)
    from that have "i < length (shift ?d 0 nc)" "shift ?d 0 nc ! i = 0"
      by (simp_all add: shift_length sh)
    with r show ?thesis by (rule random_noise_zero)
  next
    case False
    with col that show ?thesis by (simp add: delay_cases_def sh)
  qed
  have plain: "new_cases df ! i = nc ! (i - nat ?d)"
    if "\<not> add_noise self" "i < length nc" "nat ?d \<le> i" for i
    using col that by (simp add: delay_cases_def sh)
  have noisy: "random_noise nb self (shift ?d 0 nc) = Inr (new_cases df)" if "add_noise self"
    using col that by (simp add: delay_cases_def)
  from l g w lam len zero plain noisy show ?thesis by blast
qed

theorem generate_columns_witness:
  "0 \<le> case_delay (initials example_data)
   \<and> (\<exists>df lams. generate example_nbinom example_data = Inr df
          \<and> change_points_to_lambda_t example_data = Inr lams
          \<and> lambda_t df = lams
          \<and> length (new_cases df) = 3
          \<and> new_cases df ! 0 = 0)"
proof -
  have h1: "change_points (initials example_data) \<noteq> []"
    and h2: "\<forall>cp \<in> set (change_points (initials example_data)).
              data_begin example_data \<le> fst cp \<and> fst cp \<le> data_end example_data"
    and h3: "\<not> add_noise example_data"
    and h4: "0 \<le> case_delay (initials example_data)"
    by (simp_all add: example_data_def)
  from generate_returns [OF h1 h2 h3] obtain df where
    g: "generate example_nbinom example_data = Inr df" by blast
  from generate_columns [OF g h4] obtain lams t_n data nc where
    l: "change_points_to_lambda_t example_data = Inr lams" and
    "generate_SIR example_data lams = Inr (t_n, data)" and
    "week_modulation example_data t_n (calc_new_cases_raw (map y1 data)) = Inr nc" and
    lam: "lambda_t df = lams" and
    len: "length (new_cases df) = length nc" and
    zero: "\<forall>i. i < length nc \<and> i < nat (case_delay (initials example_data)) \<longrightarrow>
             new_cases df ! i = 0"
    by (elim exE conjE) (rule that)
  from change_points_to_lambda_t_length [OF h1 h2] l have "length lams = 3"
    by (auto simp: example_data_def)
  with generate_new_cases_length [OF g] lam have l3: "length (new_cases df) = 3"
    by simp
  with len have "0 < length nc \<and> 0 < nat (case_delay (initials example_data))"
    by (simp add: example_data_def)
  with zero have "new_cases df ! 0 = 0" by blast
  with g l lam l3 h4 show ?thesis by blast
qed

text \<open>
  The claim as stated fails when noise is on: the shifted modulated series of
  \<open>noisy_data\<close> is \<open>[0, 0.171...]\<close>, and the column after the draw is \<open>[0, 0]\<close>.
\<close>

lemma noisy_lams: "change_points_to_lambda_t noisy_data = Inr [1, 1]"
  by (simp add: change_points_to_lambda_t_def noisy_data_def helper_lambda_between_def
        numeral_2_eq_2)

lemma noisy_SIR:
  "generate_SIR noisy_data [1, 1] =
     Inr ([0, 1], [(3, 1, 0),
                   (20045245795899 / 8796093022208, 30909635761487 / 26388279066624,
                    6917831 / 12582912)])"
  by (simp add: generate_SIR_def noisy_data_def data_len_def Let_def RK4_def f_def
        vadd_def vscale_def vdiv_def y0_def y1_def)

theorem generate_noise_counterexample:
  "generate zero_nbinom noisy_data =
     Inr \<lparr>date_index = [Some 737494, Some 737495], new_cases = [0, 0], lambda_t = [1, 1]\<rparr>
   \<and> generate zero_nbinom (noisy_data\<lparr>add_noise := False\<rparr>) =
     Inr \<lparr>date_index = [Some 737494, Some 737495],
          new_cases = [0, 4521356694863 / 26388279066624], lambda_t = [1, 1]\<rparr>"
  by (simp add: generate_def change_points_to_lambda_t_def noisy_data_def zero_nbinom_def
        helper_lambda_between_def numeral_2_eq_2 generate_SIR_def data_len_def Let_def
        RK4_def f_def vadd_def vscale_def vdiv_def y0_def y1_def
        calc_new_cases_raw_def week_modulation_def week_f_def date_range_def frame_index_def
        delay_cases_def shift_def random_noise_def convert_def nbinom_argcheck_def)

subsection \<open>Construction\<close>

lemma change_points_to_lambda_t_error:
  "change_points_to_lambda_t self = Inl e \<Longrightarrow> e = IndexError"
  by (auto simp: change_points_to_lambda_t_def Let_def split: list.splits)

lemma date_range_reversed: "b < a \<Longrightarrow> date_range a b = []"
  by (simp add: date_range_def)

lemma generate_reversed_window:
  assumes "data_end self < data_begin self"
    and "generate nb self = Inr df"
  shows "date_index df = [None] \<and> length (new_cases df) = 1 \<and> length (lambda_t df) = 1"
proof -
  from generate_Inr [OF assms(2)] obtain lams t_n data nc where
    g: "generate_SIR self lams = Inr (t_n, data)" and
    w: "week_modulation self t_n (calc_new_cases_raw (map y1 data)) = Inr nc" and
    fi: "frame_index (dates self) nc = Inr (date_index df)"
    by blast
  from generate_SIR_lengths [OF g] assms(1) have "length t_n = 1"
    by (simp add: data_len_def)
  with week_modulation_length [OF w] have ln: "length nc = 1" by simp
  have "dates self = []"
    using assms(1) by (simp add: dates_def date_range_reversed)
  with fi ln have idx: "date_index df = [None]"
    by (auto simp: frame_index_def split: if_splits)
  with generate_new_cases_length [OF assms(2)] show ?thesis by simp
qed

text \<open>Such a frame does arise: the window 2020-03-20 to 2020-03-10 with one change point
  on 2020-03-21.\<close>

lemma generate_reversed_example:
  "generate example_nbinom reversed_data =
     Inr \<lparr>date_index = [None], new_cases = [0], lambda_t = [3 / 10]\<rparr>"
  by (simp add: generate_def change_points_to_lambda_t_def reversed_data_def
        helper_lambda_between_def logistics_from_cps_def generate_SIR_def data_len_def Let_def
        calc_new_cases_raw_def week_modulation_def date_range_def frame_index_def
        delay_cases_def shift_def)

text \<open>
  Claim C9, amended. The constructor does not validate the window. For every pair of
  dates with the end strictly before the start and every seed in numpy's range, the
  construction with \<open>auto_generate\<close> off succeeds and records the dates as given. The
  dates index of the object is empty, and a later \<open>generate\<close> either raises or returns
  a frame of a single row whose date is missing.
\<close>

theorem init_accepts_reversed_window:
  assumes "e < b" and "0 \<le> s" and "s < 2 ^ 32"
  shows "\<exists>self. init nb dr b e m noise False (Some s) kw = Inr self
           \<and> seed self = s \<and> data_begin self = b \<and> data_end self = e
           \<and> dates self = []
           \<and> (\<forall>df. generate nb self = Inr df \<longrightarrow>
                  date_index df = [None] \<and> length (new_cases df) = 1)"
proof -
  let ?self = "\<lparr>seed = s, add_noise = noise, data_begin = b, data_end = e, mu = m,
                 initials = update_initial b e kw dr\<rparr>"
  have ok: "init nb dr b e m noise False (Some s) kw = Inr ?self"
    using assms(2,3) by (simp add: init_def np_random_seed_def)
  have rev: "data_end ?self < data_begin ?self" using assms(1) by simp
  have later: "date_index df = [None] \<and> length (new_cases df) = 1"
    if "generate nb ?self = Inr df" for df
    using generate_reversed_window [OF rev that] by simp
  have "dates ?self = []"
    using assms(1) by (simp add: dates_def date_range_reversed)
  with ok later show ?thesis by auto
qed

theorem init_accepts_reversed_window_witness:
  "(737494 :: int) < 737504 \<and> (0 :: int) \<le> 1 \<and> (1 :: int) < 2 ^ 32
   \<and> (\<exists>self. init example_nbinom example_draws 737504 737494 (13 / 100) False False (Some 1)
                  no_overrides = Inr self
          \<and> data_begin self = 737504 \<and> data_end self = 737494)"
proof -
  have h1: "(737494 :: int) < 737504" and h2: "(0 :: int) \<le> 1" and h3: "(1 :: int) < 2 ^ 32"
    by simp_all
  from init_accepts_reversed_window [OF h1 h2 h3, of example_nbinom example_draws "13 / 100" False no_overrides]
  obtain self where
    "init example_nbinom example_draws 737504 737494 (13 / 100) False False (Some 1)
       no_overrides = Inr self"
    "data_begin self = 737504" "data_end self = 737494"
    by blast
  with h1 h2 h3 show ?thesis by blast
qed

text \<open>
  The claim as stated fails: the window 2020-03-20 to 2020-03-10 with seed 1 is
  accepted.
\<close>

theorem reversed_window_accepted_counterexample:
  "init example_nbinom example_draws 737504 737494 (13 / 100) False False (Some 1) no_overrides
     = Inr \<lparr>seed = 1, add_noise = False, data_begin = 737504, data_end = 737494,
            mu = 13 / 100,
            initials = \<lparr>S_initial = 7500000, I_initial = 3, R_initial = 0,
                        lambda_initial = 3 / 10, change_points = [],
                        noise_factor = 1 / 100000, offset_sunday = 2,
                        weekend_factor = 3 / 10, case_delay = 6\<rparr>\<rparr>"
  by (simp add: init_def np_random_seed_def update_initial_def no_overrides_def example_draws_def
        date_range_def py_int_def weekday_def)

text \<open>
  Claim C10. Constructing without a seed should choose a seed, record it as
  \<open>self.seed\<close> and seed the stream. The source reads \<open>np.randint\<close>, an attribute that
  numpy does not have: without a seed the constructor raises \<open>AttributeError\<close> for
  every window.
\<close>

theorem init_without_seed_raises:
  "init nb dr b e m noise auto_generate None kw = Inl AttributeError"
  by (simp add: init_def np_randint_def)

end
